theory Spec2Isabelle
  imports Complex_Main
begin

section \<open>The crop-yield ETL script (scripts/etl.py)\<close>

text \<open>
  The script reads three CSV files with pandas, cleans each table with \<open>clean_data\<close> and
  writes the three tables into an SQLite file. The development below embeds
  \<open>clean_data\<close> and \<open>main\<close>, together with the parts of pandas and sqlite3 they call,
  and proves properties of them.

  Conventions of the embedding.
  \<^item> A Python \<open>str\<close> is a list of code points. The model covers the code points below 256,
    so a \<^typ>\<open>char\<close> is one code point (not a UTF-8 byte).
  \<^item> A pandas Series is tagged by its dtype; \<open>pandas.api.types.is_numeric_dtype\<close> is the
    test on that tag. The dtypes are those \<open>read_csv\<close> infers: int64, float64 and bool are
    numeric, object is not.
  \<^item> A DataFrame is the list of its columns in order, each with its label. Labels may
    repeat, as they may in pandas.
  \<^item> DataFrames are mutable objects: they live in a store, and a variable holds a
    reference.
  \<^item> An exception is a value of type \<open>error\<close>; a function that can raise returns a sum.
  \<^item> pandas functions follow pandas 1.x and 2.x, where \<open>astype(str)\<close> calls \<open>str\<close> on every
    element of an object column, the missing ones included.
\<close>

subsection \<open>Strings\<close>

definition char_lower :: "char \<Rightarrow> char" where
  \<comment> \<open>\<open>str.lower\<close> on one code point below 256: A-Z, and the Latin-1 capitals
      U+00C0..U+00DE other than the multiplication sign U+00D7.\<close>
  "char_lower c =
     (let n = (of_char c :: nat)
      in if (65 \<le> n \<and> n \<le> 90) \<or> (192 \<le> n \<and> n \<le> 222 \<and> n \<noteq> 215)
         then char_of (n + 32) else c)"

definition str_lower :: "string \<Rightarrow> string" where
  "str_lower s = map char_lower s"

definition str_replace :: "char \<Rightarrow> char \<Rightarrow> string \<Rightarrow> string" where
  \<comment> \<open>\<open>s.replace(old, new)\<close> for one-character \<open>old\<close> and \<open>new\<close>.\<close>
  "str_replace old new s = map (\<lambda>c. if c = old then new else c) s"

definition isspace :: "char \<Rightarrow> bool" where
  \<comment> \<open>\<open>str.isspace\<close> on one code point below 256: TAB, LF, VT, FF, CR, FS, GS, RS, US,
      SPACE, NEL (U+0085) and NBSP (U+00A0).\<close>
  "isspace c =
     (let n = (of_char c :: nat)
      in (9 \<le> n \<and> n \<le> 13) \<or> (28 \<le> n \<and> n \<le> 32) \<or> n = 133 \<or> n = 160)"

definition str_strip :: "string \<Rightarrow> string" where
  \<comment> \<open>\<open>s.strip()\<close>: whitespace removed from both ends.\<close>
  "str_strip s = rev (dropWhile isspace (rev (dropWhile isspace s)))"

definition normalize_name :: "string \<Rightarrow> string" where
  \<comment> \<open>One label under \<open>.str.lower().str.replace(' ', '_')\<close> (line 15).\<close>
  "normalize_name s = str_replace (CHR '' '') (CHR ''_'') (str_lower s)"

definition stripped :: "string \<Rightarrow> bool" where
  \<comment> \<open>No whitespace at either end.\<close>
  "stripped s = (case s of [] \<Rightarrow> True | c # _ \<Rightarrow> \<not> isspace c \<and> \<not> isspace (last s))"

subsection \<open>Series and DataFrames\<close>

datatype float64 = NaN | PosInf | NegInf | Finite rat

datatype obj = Str string | Missing | Bool bool
  \<comment> \<open>An element of an object column: a \<open>str\<close>, the float NaN that marks an empty cell,
      or \<open>True\<close>/\<open>False\<close>.\<close>

datatype numeric = Int64 "int list" | Float64 "float64 list" | Bool8 "bool list"

datatype series = Numeric numeric | Object "obj list"

type_synonym dataframe = "(string \<times> series) list"

datatype cell = IntCell int | FloatCell float64 | BoolCell bool | ObjCell obj

fun cells :: "series \<Rightarrow> cell list" where
  "cells (Numeric (Int64 xs)) = map IntCell xs"
| "cells (Numeric (Float64 xs)) = map FloatCell xs"
| "cells (Numeric (Bool8 xs)) = map BoolCell xs"
| "cells (Object xs) = map ObjCell xs"

fun isna :: "cell \<Rightarrow> bool" where
  \<comment> \<open>\<open>pandas.isna\<close> on one cell.\<close>
  "isna (FloatCell NaN) = True"
| "isna (ObjCell Missing) = True"
| "isna _ = False"

definition is_numeric_dtype :: "series \<Rightarrow> bool" where
  "is_numeric_dtype s = (case s of Numeric _ \<Rightarrow> True | Object _ \<Rightarrow> False)"

definition columns :: "dataframe \<Rightarrow> string list" where
  "columns df = map fst df"

definition set_columns :: "dataframe \<Rightarrow> string list \<Rightarrow> dataframe" where
  \<comment> \<open>\<open>df.columns = names\<close>, for as many names as there are columns.\<close>
  "set_columns df names = zip names (map snd df)"

datatype error =
    FileNotFoundError "string list"
  | AttributeError
  | KeyError string
  | DatabaseError
  | EmptyDataError
  | ParserError
  | UnicodeDecodeError
  | PermissionError

datatype item = Series series | Frame dataframe

definition getitem :: "dataframe \<Rightarrow> string \<Rightarrow> error + item" where
  \<comment> \<open>\<open>df[col]\<close>: the column when one column has that label, a DataFrame of all of them
      when several have it.\<close>
  "getitem df col =
     (case filter (\<lambda>(n, _). n = col) df of
        [] \<Rightarrow> Inl (KeyError col)
      | [(_, s)] \<Rightarrow> Inr (Series s)
      | sub \<Rightarrow> Inr (Frame sub))"

definition setitem :: "dataframe \<Rightarrow> string \<Rightarrow> series \<Rightarrow> dataframe" where
  \<comment> \<open>\<open>df[col] = s\<close>: the column of that label is replaced where it stands; a new label
      is appended.\<close>
  "setitem df col s =
     (if col \<in> set (columns df)
      then map (\<lambda>(n, old). if n = col then (n, s) else (n, old)) df
      else df @ [(col, s)])"

subsection \<open>The Series methods that \<open>clean_data\<close> calls\<close>

fun fillna_0 :: "numeric \<Rightarrow> numeric" where
  \<comment> \<open>\<open>fillna(0)\<close> on a numeric column: only float64 can hold a missing value.\<close>
  "fillna_0 (Int64 xs) = Int64 xs"
| "fillna_0 (Float64 xs) = Float64 (map (\<lambda>x. if x = NaN then Finite 0 else x) xs)"
| "fillna_0 (Bool8 xs) = Bool8 xs"

fun py_str :: "obj \<Rightarrow> string" where
  \<comment> \<open>Python's \<open>str(x)\<close>.\<close>
  "py_str (Str s) = s"
| "py_str Missing = ''nan''"
| "py_str (Bool True) = ''True''"
| "py_str (Bool False) = ''False''"

definition astype_str :: "obj list \<Rightarrow> obj list" where
  \<comment> \<open>\<open>astype(str)\<close>: every element becomes the \<open>str\<close> that \<open>str()\<close> gives for it.\<close>
  "astype_str xs = map (\<lambda>x. Str (py_str x)) xs"

fun strip_obj :: "obj \<Rightarrow> obj" where
  "strip_obj (Str s) = Str (str_strip s)"
| "strip_obj _ = Missing"

definition series_str_strip :: "obj list \<Rightarrow> obj list" where
  \<comment> \<open>\<open>.str.strip()\<close>: strings are stripped, any other element gives NaN.\<close>
  "series_str_strip xs = map strip_obj xs"

definition fillna_obj :: "string \<Rightarrow> obj list \<Rightarrow> obj list" where
  \<comment> \<open>\<open>fillna(v)\<close> on an object column, for a string \<open>v\<close>.\<close>
  "fillna_obj v xs = map (\<lambda>x. if x = Missing then Str v else x) xs"

subsection \<open>The store of DataFrame objects\<close>

record heap =
  store :: "nat \<Rightarrow> dataframe"
  fresh :: nat

definition put :: "heap \<Rightarrow> nat \<Rightarrow> dataframe \<Rightarrow> heap" where
  "put h r df = h\<lparr>store := (store h)(r := df)\<rparr>"

definition alloc :: "heap \<Rightarrow> dataframe \<Rightarrow> heap \<times> nat" where
  "alloc h df = (h\<lparr>store := (store h)(fresh h := df), fresh := Suc (fresh h)\<rparr>, fresh h)"

definition copy :: "heap \<Rightarrow> nat \<Rightarrow> heap \<times> nat" where
  \<comment> \<open>\<open>df.copy()\<close>: a new object with the same contents.\<close>
  "copy h r = alloc h (store h r)"

subsection \<open>\<open>clean_data\<close> (lines 12 to 26)\<close>

definition clean_column :: "series \<Rightarrow> series" where
  \<comment> \<open>The body of the loop, lines 20 to 25, on the column \<open>df[col]\<close>.\<close>
  "clean_column s =
     (case s of
        Numeric n \<Rightarrow> Numeric (fillna_0 n)
      | Object xs \<Rightarrow> Object (fillna_obj ''Unknown'' (series_str_strip (astype_str xs))))"

fun clean_loop :: "string list \<Rightarrow> heap \<Rightarrow> nat \<Rightarrow> heap \<times> error option" where
  \<comment> \<open>\<open>for col in df.columns\<close>. When \<open>df[col]\<close> is a DataFrame, \<open>is_numeric_dtype\<close> is
      False and \<open>.astype(str).str\<close> raises AttributeError: a DataFrame has no \<open>str\<close>.\<close>
  "clean_loop [] h df = (h, None)"
| "clean_loop (col # cols) h df =
     (case getitem (store h df) col of
        Inl e \<Rightarrow> (h, Some e)
      | Inr (Frame _) \<Rightarrow> (h, Some AttributeError)
      | Inr (Series s) \<Rightarrow> clean_loop cols (put h df (setitem (store h df) col (clean_column s))) df)"

definition clean_data :: "heap \<Rightarrow> nat \<Rightarrow> heap \<times> (error + nat)" where
  \<comment> \<open>The DataFrame at \<open>df\<close> is changed in place and \<open>df\<close> itself is returned.\<close>
  "clean_data h df =
     (let h1 = put h df (set_columns (store h df) (map normalize_name (columns (store h df))))
      in case clean_loop (columns (store h1 df)) h1 df of
           (h2, None) \<Rightarrow> (h2, Inr df)
         | (h2, Some e) \<Rightarrow> (h2, Inl e))"

definition cleaned :: "dataframe \<Rightarrow> dataframe" where
  \<comment> \<open>What a run of \<open>clean_data\<close> that returns leaves in the DataFrame (lemma
      \<open>clean_data_returns\<close>).\<close>
  "cleaned d = map (\<lambda>(n, s). (normalize_name n, clean_column s)) d"

fun clean_cell :: "cell \<Rightarrow> cell" where
  \<comment> \<open>What lines 20 to 25 do to one cell: a missing number becomes 0, an element of an
      object column becomes its stripped \<open>str()\<close>, any other number stays.\<close>
  "clean_cell (FloatCell NaN) = FloatCell (Finite 0)"
| "clean_cell (ObjCell x) = ObjCell (Str (str_strip (py_str x)))"
| "clean_cell c = c"

subsection \<open>Files, the SQLite store and the console\<close>

datatype message =
    MsgStart
  | MsgStep1
  | MsgLoaded
  | MsgNotFound error
  | MsgHint
  | MsgStep2
  | MsgClean
  | MsgStep3
  | MsgDing
  | MsgWhoops error
  | MsgComplete

datatype conn_state = NoConn | Open "string list" | Closed
  \<comment> \<open>\<open>Closed\<close> is the state after \<open>Connection.close()\<close>.\<close>

datatype fault = NoFault | FailAtCheck | FailAtCreate | FailAtInsert
  \<comment> \<open>Where a \<open>to_sql\<close> call fails, if it does: before it changes anything, when it
      creates the table, or when it inserts the rows.\<close>

record faults =
  connect_fails :: bool
  write_fault :: "string \<Rightarrow> fault"

datatype csv_file = Parses dataframe | EmptyFile | Malformed | Undecodable | NoPermission
  \<comment> \<open>A file that exists: one that \<open>read_csv\<close> parses into a table, or one on which it
      raises (no columns to parse, bad rows, bytes that are not UTF-8, no right to read).\<close>

record world =
  files :: "string list \<Rightarrow> csv_file option"
  mem :: heap
  databases :: "string list \<Rightarrow> (string \<Rightarrow> dataframe option) option"
  conn :: conn_state
  out :: "message list"

text \<open>
  A path is the list of its components, so \<open>os.path.join\<close> is list append. \<open>files w p\<close>
  is the file at \<open>p\<close>, or \<open>None\<close> when there is no such file. \<open>databases w p\<close> is the set of tables of the SQLite file at \<open>p\<close>.
\<close>

definition db_path :: "string list \<Rightarrow> string list" where
  "db_path cwd = cwd @ [''data'', ''agriculture.db'']"

definition crop_data_path :: "string list \<Rightarrow> string list" where
  "crop_data_path cwd = cwd @ [''data'', ''csv data'', ''raw'', ''area_production_yield_data.csv'']"

definition normal_rainfall_path :: "string list \<Rightarrow> string list" where
  "normal_rainfall_path cwd = cwd @ [''data'', ''csv data'', ''raw'', ''normal_rainfall_data.csv'']"

definition monthly_rainfall_path :: "string list \<Rightarrow> string list" where
  "monthly_rainfall_path cwd = cwd @ [''data'', ''csv data'', ''raw'', ''monthly_rainfall_data.csv'']"

definition print :: "world \<Rightarrow> message \<Rightarrow> world" where
  "print w m = w\<lparr>out := out w @ [m]\<rparr>"

definition read_csv :: "world \<Rightarrow> string list \<Rightarrow> world \<times> (error + nat)" where
  \<comment> \<open>\<open>pd.read_csv(p)\<close>: a new DataFrame, or the exception pandas raises.\<close>
  "read_csv w p =
     (case files w p of
        None \<Rightarrow> (w, Inl (FileNotFoundError p))
      | Some (Parses t) \<Rightarrow> (case alloc (mem w) t of (h, r) \<Rightarrow> (w\<lparr>mem := h\<rparr>, Inr r))
      | Some EmptyFile \<Rightarrow> (w, Inl EmptyDataError)
      | Some Malformed \<Rightarrow> (w, Inl ParserError)
      | Some Undecodable \<Rightarrow> (w, Inl UnicodeDecodeError)
      | Some NoPermission \<Rightarrow> (w, Inl PermissionError))"


definition tables :: "world \<Rightarrow> string list \<Rightarrow> string \<Rightarrow> dataframe option" where
  \<comment> \<open>The table of that name in the SQLite file at \<open>p\<close>, if the file and the table exist.\<close>
  "tables w p name = (case databases w p of None \<Rightarrow> None | Some m \<Rightarrow> m name)"

definition connect :: "faults \<Rightarrow> world \<Rightarrow> string list \<Rightarrow> world \<times> (error + string list)" where
  \<comment> \<open>\<open>sqlite3.connect(p)\<close>: the file is created when it does not exist.\<close>
  "connect fl w p =
     (if connect_fails fl then (w, Inl DatabaseError)
      else (w\<lparr>databases := (databases w)(p \<mapsto> tables w p), conn := Open p\<rparr>, Inr p))"

fun empty_like :: "series \<Rightarrow> series" where
  "empty_like (Numeric (Int64 _)) = Numeric (Int64 [])"
| "empty_like (Numeric (Float64 _)) = Numeric (Float64 [])"
| "empty_like (Numeric (Bool8 _)) = Numeric (Bool8 [])"
| "empty_like (Object _) = Object []"

definition to_sql :: "faults \<Rightarrow> world \<Rightarrow> nat \<Rightarrow> string \<Rightarrow> string list \<Rightarrow> world \<times> (error + unit)" where
  \<comment> \<open>\<open>df.to_sql(name, conn, if_exists='replace', index=False)\<close>: the table is dropped if
      it exists, created from the columns of \<open>df\<close>, and the rows are inserted. pandas
      commits the creation and the insertion, and rolls back an insertion that fails.\<close>
  "to_sql fl w df name c =
     (let frame = store (mem w) df;
          dropped = (tables w c)(name := None);
          created = dropped(name \<mapsto> map (\<lambda>(n, s). (n, empty_like s)) frame);
          inserted = dropped(name \<mapsto> frame)
      in case write_fault fl name of
           FailAtCheck \<Rightarrow> (w, Inl DatabaseError)
         | FailAtCreate \<Rightarrow> (w\<lparr>databases := (databases w)(c \<mapsto> dropped)\<rparr>, Inl DatabaseError)
         | FailAtInsert \<Rightarrow> (w\<lparr>databases := (databases w)(c \<mapsto> created)\<rparr>, Inl DatabaseError)
         | NoFault \<Rightarrow> (w\<lparr>databases := (databases w)(c \<mapsto> inserted)\<rparr>, Inr ()))"

definition connection_exit :: "world \<Rightarrow> world" where
  \<comment> \<open>\<open>Connection.__exit__\<close>, run when the \<open>with\<close> block is left: it commits when the block
      ended normally and rolls back when it raised. Every \<open>to_sql\<close> has committed or
      rolled back its own statements by then, so the tables stay as they are. It does
      not call \<open>close\<close>: the connection stays open.\<close>
  "connection_exit w = w"

subsection \<open>\<open>main\<close> (lines 28 to 66)\<close>

definition extract_step :: "string list \<Rightarrow> world \<Rightarrow> world \<times> (error + nat \<times> nat \<times> nat)" where
  \<comment> \<open>The three reads and the message after them, lines 34 to 37.\<close>
  "extract_step cwd w =
     (case read_csv w (crop_data_path cwd) of
        (w1, Inl e) \<Rightarrow> (w1, Inl e)
      | (w1, Inr crop_df) \<Rightarrow>
     (case read_csv w1 (normal_rainfall_path cwd) of
        (w2, Inl e) \<Rightarrow> (w2, Inl e)
      | (w2, Inr normal_rainfall_df) \<Rightarrow>
     (case read_csv w2 (monthly_rainfall_path cwd) of
        (w3, Inl e) \<Rightarrow> (w3, Inl e)
      | (w3, Inr monthly_rainfall_df) \<Rightarrow>
          (print w3 MsgLoaded, Inr (crop_df, normal_rainfall_df, monthly_rainfall_df)))))"

definition clean_copy :: "world \<Rightarrow> nat \<Rightarrow> world \<times> (error + nat)" where
  \<comment> \<open>\<open>clean_data(df.copy())\<close>.\<close>
  "clean_copy w df =
     (case copy (mem w) df of (h1, c) \<Rightarrow>
        (case clean_data h1 c of (h2, r) \<Rightarrow> (w\<lparr>mem := h2\<rparr>, r)))"

definition transform_step :: "world \<Rightarrow> nat \<times> nat \<times> nat \<Rightarrow> world \<times> (error + nat \<times> nat \<times> nat)" where
  \<comment> \<open>Lines 45 to 48.\<close>
  "transform_step w dfs =
     (case dfs of (crop_df, normal_rainfall_df, monthly_rainfall_df) \<Rightarrow>
     (case clean_copy w crop_df of
        (w1, Inl e) \<Rightarrow> (w1, Inl e)
      | (w1, Inr crop_df_clean) \<Rightarrow>
     (case clean_copy w1 normal_rainfall_df of
        (w2, Inl e) \<Rightarrow> (w2, Inl e)
      | (w2, Inr normal_df_clean) \<Rightarrow>
     (case clean_copy w2 monthly_rainfall_df of
        (w3, Inl e) \<Rightarrow> (w3, Inl e)
      | (w3, Inr monthly_rainfall_clean) \<Rightarrow>
          (print w3 MsgClean, Inr (crop_df_clean, normal_df_clean, monthly_rainfall_clean))))))"

definition write_tables ::
  "faults \<Rightarrow> world \<Rightarrow> nat \<times> nat \<times> nat \<Rightarrow> string list \<Rightarrow> world \<times> (error + unit)" where
  \<comment> \<open>The body of the \<open>with\<close> block, lines 58 to 61.\<close>
  "write_tables fl w dfs c =
     (case dfs of (crop_df_clean, normal_df_clean, monthly_rainfall_clean) \<Rightarrow>
     (case to_sql fl w crop_df_clean ''crop_production'' c of
        (w1, Inl e) \<Rightarrow> (w1, Inl e)
      | (w1, Inr _) \<Rightarrow>
     (case to_sql fl w1 normal_df_clean ''normal_rainfall'' c of
        (w2, Inl e) \<Rightarrow> (w2, Inl e)
      | (w2, Inr _) \<Rightarrow>
     (case to_sql fl w2 monthly_rainfall_clean ''monthly_rainfall'' c of
        (w3, Inl e) \<Rightarrow> (w3, Inl e)
      | (w3, Inr _) \<Rightarrow> (print w3 MsgDing, Inr ())))))"

definition load_step :: "faults \<Rightarrow> string list \<Rightarrow> world \<Rightarrow> nat \<times> nat \<times> nat \<Rightarrow> world \<times> (error + unit)" where
  \<comment> \<open>The \<open>with\<close> statement, lines 54 to 61.\<close>
  "load_step fl cwd w dfs =
     (case connect fl w (db_path cwd) of
        (w1, Inl e) \<Rightarrow> (w1, Inl e)
      | (w1, Inr c) \<Rightarrow>
          (case write_tables fl w1 dfs c of (w2, r) \<Rightarrow> (connection_exit w2, r)))"

definition main :: "faults \<Rightarrow> string list \<Rightarrow> world \<Rightarrow> world \<times> (error + unit)" where
  \<comment> \<open>\<open>Inr ()\<close> is a return, \<open>Inl e\<close> an exception that leaves \<open>main\<close>. The first \<open>except\<close>
      catches FileNotFoundError only, the second every exception; nothing catches what
      \<open>clean_data\<close> raises.\<close>
  "main fl cwd w =
     (case extract_step cwd (print (print w MsgStart) MsgStep1) of
        (w1, Inl (FileNotFoundError p)) \<Rightarrow>
          (print (print w1 (MsgNotFound (FileNotFoundError p))) MsgHint, Inr ())
      | (w1, Inl e) \<Rightarrow> (w1, Inl e)
      | (w1, Inr dfs) \<Rightarrow>
     (case transform_step (print w1 MsgStep2) dfs of
        (w2, Inl e) \<Rightarrow> (w2, Inl e)
      | (w2, Inr clean) \<Rightarrow>
     (case load_step fl cwd (print w2 MsgStep3) clean of
        (w3, Inl e) \<Rightarrow> (print w3 (MsgWhoops e), Inr ())
      | (w3, Inr _) \<Rightarrow> (print w3 MsgComplete, Inr ()))))"

subsection \<open>Example inputs\<close>

definition example_frame :: dataframe where
  "example_frame =
     [(''District Name'', Object [Str ''  Wheat '', Missing]),
      (''Area'', Numeric (Float64 [Finite 2, NaN]))]"

definition example_heap :: heap where
  \<comment> \<open>One DataFrame, at address 0.\<close>
  "example_heap = \<lparr>store = (\<lambda>_. [])(0 := example_frame), fresh = 1\<rparr>"

definition example_world :: world where
  \<comment> \<open>The three CSV files exist under the directory \<open>home\<close>; there is no database yet.\<close>
  "example_world =
     \<lparr>files = (\<lambda>_. None)
        (crop_data_path [''home''] \<mapsto> Parses example_frame,
         normal_rainfall_path [''home''] \<mapsto> Parses [(''Rain'', Numeric (Float64 [NaN]))],
         monthly_rainfall_path [''home''] \<mapsto> Parses [(''Jan'', Numeric (Int64 [3]))]),
      mem = \<lparr>store = (\<lambda>_. []), fresh = 0\<rparr>,
      databases = (\<lambda>_. None),
      conn = NoConn,
      out = []\<rparr>"


definition no_faults :: faults where
  "no_faults = \<lparr>connect_fails = False, write_fault = (\<lambda>_. NoFault)\<rparr>"

definition second_write_fails :: faults where
  "second_write_fails =
     \<lparr>connect_fails = False, write_fault = (\<lambda>_. NoFault)(''normal_rainfall'' := FailAtInsert)\<rparr>"

section \<open>Properties of the string functions\<close>

lemma char_lower_idem: "char_lower (char_lower c) = char_lower c"
  unfolding char_lower_def Let_def by auto

lemma char_lower_underscore: "char_lower CHR ''_'' = CHR ''_''"
  by (simp add: char_lower_def)

lemma normalize_name_idem: "normalize_name (normalize_name s) = normalize_name s"
  by (simp add: normalize_name_def str_replace_def str_lower_def char_lower_idem
      char_lower_underscore)

lemma dropWhile_rev_prefix: "\<exists>zs. t = rev (dropWhile P (rev t)) @ zs"
proof -
  have "rev t = takeWhile P (rev t) @ dropWhile P (rev t)" by simp
  then have "t = rev (takeWhile P (rev t) @ dropWhile P (rev t))" by (metis rev_rev_ident)
  then show ?thesis by (metis rev_append)
qed

lemma stripped_str_strip: "stripped (str_strip s)"
proof (cases "str_strip s")
  case Nil
  then show ?thesis by (simp add: stripped_def)
next
  case (Cons c cs)
  let ?t = "dropWhile isspace s"
  let ?u = "dropWhile isspace (rev ?t)"
  have u: "?u \<noteq> []" using Cons by (auto simp: str_strip_def)
  obtain zs where t: "?t = rev ?u @ zs" using dropWhile_rev_prefix by blast
  have "?t \<noteq> []"
  proof
    assume "?t = []"
    then have "?u = []" by (simp only: rev.simps dropWhile.simps)
    with u show False ..
  qed
  then have "\<not> isspace (hd ?t)" by (rule hd_dropWhile)
  moreover have "hd ?t = hd (rev ?u)" using t u by (metis hd_append2 rev_is_Nil_conv)
  ultimately have "\<not> isspace c" using Cons by (simp add: str_strip_def)
  moreover have "\<not> isspace (hd ?u)" using u by (rule hd_dropWhile)
  then have "\<not> isspace (last (str_strip s))" using u by (simp add: str_strip_def last_rev)
  ultimately show ?thesis using Cons by (simp add: stripped_def)
qed

lemma str_strip_stripped: "stripped s \<Longrightarrow> str_strip s = s"
proof (cases s)
  case Nil
  then show ?thesis by (simp add: str_strip_def)
next
  case (Cons c cs)
  assume "stripped s"
  with Cons have a: "\<not> isspace c" and b: "\<not> isspace (last s)" by (auto simp: stripped_def)
  from a Cons have "dropWhile isspace s = s" by simp
  moreover have "rev s \<noteq> []" using Cons by simp
  then have "dropWhile isspace (rev s) = rev s" using b Cons
    by (metis dropWhile_eq_self_iff hd_rev)
  ultimately show ?thesis by (simp add: str_strip_def)
qed

lemma str_strip_idem: "str_strip (str_strip s) = str_strip s"
  by (rule str_strip_stripped) (rule stripped_str_strip)

lemma clean_column_Object:
  "clean_column (Object xs) = Object (map (\<lambda>x. Str (str_strip (py_str x))) xs)"
  by (simp add: clean_column_def fillna_obj_def series_str_strip_def astype_str_def)

lemma fillna_0_idem: "fillna_0 (fillna_0 n) = fillna_0 n"
  by (cases n) auto

lemma clean_column_idem: "clean_column (clean_column s) = clean_column s"
proof (cases s)
  case (Numeric n)
  then show ?thesis by (simp add: clean_column_def fillna_0_idem)
next
  case (Object xs)
  then show ?thesis by (simp add: clean_column_Object str_strip_idem)
qed

lemma cleaned_idem: "cleaned (cleaned d) = cleaned d"
  by (simp add: cleaned_def case_prod_beta normalize_name_idem clean_column_idem)

lemma columns_cleaned: "columns (cleaned d) = map normalize_name (columns d)"
  by (simp add: cleaned_def columns_def case_prod_beta)

section \<open>Properties of \<open>clean_data\<close>\<close>

subsection \<open>The loop\<close>

lemma store_put [simp]: "store (put h r d) a = (if a = r then d else store h a)"
  by (simp add: put_def)

lemma fresh_put [simp]: "fresh (put h r d) = fresh h"
  by (simp add: put_def)

lemma put_put [simp]: "put (put h r a) r b = put h r b"
  by (simp add: put_def)

lemma filter_label_length:
  "length (filter (\<lambda>(n, _). n = c) d) = count_list (map fst d) c"
  by (induction d) auto

lemma columns_setitem:
  "c \<in> set (columns d) \<Longrightarrow> columns (setitem d c s) = columns d"
  by (induction d) (auto simp: setitem_def columns_def)

lemma filter_label_distinct:
  "distinct (map fst d) \<Longrightarrow> (c, s) \<in> set d \<Longrightarrow> filter (\<lambda>(n, _). n = c) d = [(c, s)]"
proof (induction d)
  case Nil
  then show ?case by simp
next
  case (Cons a d)
  obtain n x where a: "a = (n, x)" by (cases a)
  show ?case
  proof (cases "n = c")
    case True
    with Cons.prems a have "x = s" by (auto simp: image_iff)
    moreover from Cons.prems a True have "filter (\<lambda>(n, _). n = c) d = []"
      by (auto simp: filter_empty_conv image_iff)
    ultimately show ?thesis using a True by simp
  next
    case False
    with Cons a show ?thesis by auto
  qed
qed

lemma getitem_distinct:
  "distinct (columns d) \<Longrightarrow> (c, s) \<in> set d \<Longrightarrow> getitem d c = Inr (Series s)"
  by (simp add: getitem_def columns_def filter_label_distinct)

lemma setitem_distinct:
  assumes "distinct (columns d)" and "(c, s) \<in> set d"
  shows "setitem d c (f s) = map (\<lambda>(n, x). if n = c then (n, f x) else (n, x)) d"
proof -
  have "c \<in> set (columns d)" using assms(2) by (force simp: columns_def)
  moreover have "\<And>n x. (n, x) \<in> set d \<Longrightarrow> n = c \<Longrightarrow> x = s"
    using assms by (metis columns_def eq_key_imp_eq_value)
  ultimately show ?thesis
    by (auto simp: setitem_def)
qed

lemma clean_loop_distinct:
  "distinct (columns (store h df)) \<Longrightarrow> distinct cols \<Longrightarrow> set cols \<subseteq> set (columns (store h df)) \<Longrightarrow>
   clean_loop cols h df =
     (put h df (map (\<lambda>(n, x). if n \<in> set cols then (n, clean_column x) else (n, x)) (store h df)), None)"
proof (induction cols arbitrary: h)
  case Nil
  have "put h df (store h df) = h" by (simp add: put_def)
  then show ?case by (simp add: case_prod_beta)
next
  case (Cons c cols)
  let ?d = "store h df"
  from Cons.prems obtain s where s: "(c, s) \<in> set ?d" by (auto simp: columns_def)
  let ?d' = "map (\<lambda>(n, x). if n = c then (n, clean_column x) else (n, x)) ?d"
  let ?h' = "put h df ?d'"
  have g: "getitem ?d c = Inr (Series s)" using Cons.prems(1) s by (rule getitem_distinct)
  have st: "setitem ?d c (clean_column s) = ?d'" using Cons.prems(1) s by (rule setitem_distinct)
  have cols': "columns ?d' = columns ?d" by (simp add: columns_def case_prod_beta comp_def if_distrib cong: if_cong)
  have step: "clean_loop (c # cols) h df = clean_loop cols ?h' df"
    using g st by simp
  have "clean_loop cols ?h' df =
     (put ?h' df (map (\<lambda>(n, x). if n \<in> set cols then (n, clean_column x) else (n, x)) (store ?h' df)), None)"
    using Cons.prems by (intro Cons.IH) (auto simp: cols')
  then have ih: "clean_loop cols ?h' df =
     (put h df (map (\<lambda>(n, x). if n \<in> set cols then (n, clean_column x) else (n, x)) ?d'), None)"
    by simp
  have m: "map (\<lambda>(n, x). if n \<in> set cols then (n, clean_column x) else (n, x)) ?d'
     = map (\<lambda>(n, x). if n \<in> set (c # cols) then (n, clean_column x) else (n, x)) ?d"
    using Cons.prems(2) by (auto simp: case_prod_beta)
  show ?case unfolding step ih m ..
qed

lemma clean_loop_frame:
  "clean_loop cols h df = (h', e) \<Longrightarrow> fresh h' = fresh h \<and> (\<forall>a. a \<noteq> df \<longrightarrow> store h' a = store h a)"
proof (induction cols arbitrary: h)
  case Nil
  then show ?case by simp
next
  case (Cons c cols)
  then show ?case
    by (fastforce split: sum.splits item.splits)
qed

lemma clean_loop_None_unique:
  "clean_loop cols h df = (h', None) \<Longrightarrow> \<forall>c\<in>set cols. count_list (columns (store h df)) c = 1"
proof (induction cols arbitrary: h)
  case Nil
  then show ?case by simp
next
  case (Cons c cols)
  let ?d = "store h df"
  from Cons.prems obtain s where g: "getitem ?d c = Inr (Series s)"
    and r: "clean_loop cols (put h df (setitem ?d c (clean_column s))) df = (h', None)"
    by (auto split: sum.splits item.splits)
  from g have one: "length (filter (\<lambda>(n, _). n = c) ?d) = 1"
    by (auto simp: getitem_def split: list.splits)
  then have c1: "count_list (columns ?d) c = 1" by (simp add: filter_label_length columns_def)
  then have "c \<in> set (columns ?d)" by (metis count_list_0_iff zero_neq_one)
  then have "columns (setitem ?d c (clean_column s)) = columns ?d" by (rule columns_setitem)
  with Cons.IH [OF r] c1 show ?case by simp
qed

lemma clean_loop_error:
  "clean_loop cols h df = (h', Some e) \<Longrightarrow> set cols \<subseteq> set (columns (store h df)) \<Longrightarrow> e = AttributeError"
proof (induction cols arbitrary: h)
  case Nil
  then show ?case by simp
next
  case (Cons c cols)
  let ?d = "store h df"
  have cin: "c \<in> set (columns ?d)" using Cons.prems(2) by simp
  then have ne: "filter (\<lambda>(n, _). n = c) ?d \<noteq> []"
    by (auto simp: filter_empty_conv columns_def)
  show ?case
  proof (cases "getitem ?d c")
    case (Inl k)
    with ne show ?thesis by (auto simp: getitem_def split: list.splits)
  next
    case (Inr it)
    show ?thesis
    proof (cases it)
      case (Series s)
      with Inr Cons.prems(1) have r: "clean_loop cols (put h df (setitem ?d c (clean_column s))) df = (h', Some e)"
        by simp
      have "columns (setitem ?d c (clean_column s)) = columns ?d" using cin by (rule columns_setitem)
      with Cons.prems(2) show ?thesis by (intro Cons.IH [OF r]) simp
    next
      case (Frame x)
      with Inr Cons.prems(1) show ?thesis by simp
    qed
  qed
qed

lemma distinct_count_list: "distinct xs \<longleftrightarrow> (\<forall>x\<in>set xs. count_list xs x = 1)"
  by (induction xs) (auto simp: count_list_0_iff)

subsection \<open>The whole function\<close>

lemma columns_set_columns:
  "length names = length d \<Longrightarrow> columns (set_columns d names) = names"
  by (simp add: columns_def set_columns_def)

lemma set_columns_normalize:
  "set_columns d (map normalize_name (columns d)) = map (\<lambda>(n, s). (normalize_name n, s)) d"
  by (induction d) (auto simp: set_columns_def columns_def)

lemma clean_loop_columns:
  "clean_loop cols h df = (h', e) \<Longrightarrow> columns (store h' df) = columns (store h df)"
proof (induction cols arbitrary: h)
  case Nil
  then show ?case by simp
next
  case (Cons c cols)
  let ?d = "store h df"
  show ?case
  proof (cases "getitem ?d c")
    case (Inl k)
    with Cons.prems show ?thesis by simp
  next
    case (Inr it)
    show ?thesis
    proof (cases it)
      case (Series s)
      with Inr have "length (filter (\<lambda>(n, _). n = c) ?d) = 1"
        by (auto simp: getitem_def split: list.splits)
      then have "count_list (columns ?d) c = 1" by (simp add: filter_label_length columns_def)
      then have "c \<in> set (columns ?d)" by (metis count_list_0_iff zero_neq_one)
      then have "columns (setitem ?d c (clean_column s)) = columns ?d" by (rule columns_setitem)
      moreover from Series Inr Cons.prems
      have "clean_loop cols (put h df (setitem ?d c (clean_column s))) df = (h', e)" by simp
      from Cons.IH [OF this]
      have "columns (store h' df) = columns (setitem ?d c (clean_column s))" by simp
      ultimately show ?thesis by simp
    next
      case (Frame x)
      with Inr Cons.prems show ?thesis by simp
    qed
  qed
qed

lemma clean_data_returns:
  assumes "distinct (map normalize_name (columns (store h df)))"
  shows "clean_data h df = (put h df (cleaned (store h df)), Inr df)"
proof -
  let ?d = "store h df"
  let ?d1 = "map (\<lambda>(n, s). (normalize_name n, s)) ?d"
  let ?h1 = "put h df ?d1"
  have c1: "columns ?d1 = map normalize_name (columns ?d)"
    by (simp add: columns_def case_prod_beta comp_def)
  have "clean_loop (columns (store ?h1 df)) ?h1 df =
     (put ?h1 df (map (\<lambda>(n, x). if n \<in> set (columns (store ?h1 df)) then (n, clean_column x) else (n, x))
        (store ?h1 df)), None)"
    using assms by (intro clean_loop_distinct) (simp_all add: c1)
  moreover have "map (\<lambda>(n, x). if n \<in> set (columns ?d1) then (n, clean_column x) else (n, x)) ?d1
      = cleaned ?d"
    by (auto simp: cleaned_def columns_def case_prod_beta image_iff)
  ultimately have "clean_loop (columns ?d1) ?h1 df = (put h df (cleaned ?d), None)"
    by simp
  then show ?thesis
    by (simp add: clean_data_def set_columns_normalize)
qed

lemma clean_data_Inr:
  assumes "clean_data h df = (h', Inr r)"
  shows "distinct (map normalize_name (columns (store h df)))"
proof -
  let ?d = "store h df"
  let ?d1 = "map (\<lambda>(n, s). (normalize_name n, s)) ?d"
  let ?h1 = "put h df ?d1"
  have c1: "columns ?d1 = map normalize_name (columns ?d)"
    by (simp add: columns_def case_prod_beta comp_def)
  from assms have "clean_loop (columns ?d1) ?h1 df = (h', None)"
    by (auto simp: clean_data_def set_columns_normalize Let_def split: prod.splits option.splits)
  from clean_loop_None_unique [OF this]
  have "\<forall>c\<in>set (columns ?d1). count_list (columns ?d1) c = 1" by simp
  then have "distinct (columns ?d1)" by (simp add: distinct_count_list)
  then show ?thesis by (simp add: c1)
qed

lemma clean_data_Inr_eq:
  assumes "clean_data h df = (h', Inr r)"
  shows "r = df \<and> h' = put h df (cleaned (store h df))"
  using assms clean_data_returns [OF clean_data_Inr [OF assms]] by auto

lemma clean_data_Inl:
  assumes "clean_data h df = (h', Inl e)"
  shows "e = AttributeError \<and> \<not> distinct (map normalize_name (columns (store h df)))"
proof -
  let ?d1 = "set_columns (store h df) (map normalize_name (columns (store h df)))"
  let ?h1 = "put h df ?d1"
  from assms have "clean_loop (columns ?d1) ?h1 df = (h', Some e)"
    by (auto simp: clean_data_def Let_def split: prod.splits option.splits)
  then have "e = AttributeError" by (rule clean_loop_error) simp
  moreover have "\<not> distinct (map normalize_name (columns (store h df)))"
    using assms clean_data_returns [of h df] by auto
  ultimately show ?thesis ..
qed

lemma clean_data_frame:
  assumes "clean_data h df = (h', res)"
  shows "fresh h' = fresh h \<and> (\<forall>a. a \<noteq> df \<longrightarrow> store h' a = store h a)"
proof -
  let ?h1 = "put h df (set_columns (store h df) (map normalize_name (columns (store h df))))"
  obtain e where "clean_loop (columns (store ?h1 df)) ?h1 df = (h', e)"
    using assms by (auto simp: clean_data_def Let_def split: prod.splits option.splits)
  from clean_loop_frame [OF this] show ?thesis by simp
qed

lemma clean_data_columns:
  assumes "clean_data h df = (h', res)"
  shows "columns (store h' df) = map normalize_name (columns (store h df))"
proof -
  let ?h1 = "put h df (set_columns (store h df) (map normalize_name (columns (store h df))))"
  obtain e where "clean_loop (columns (store ?h1 df)) ?h1 df = (h', e)"
    using assms by (auto simp: clean_data_def Let_def split: prod.splits option.splits)
  from clean_loop_columns [OF this]
  have "columns (store h' df)
      = columns (set_columns (store h df) (map normalize_name (columns (store h df))))"
    by simp
  also have "\<dots> = map normalize_name (columns (store h df))"
    by (rule columns_set_columns) (simp add: columns_def)
  finally show ?thesis .
qed

lemma put_same: "put h r (store h r) = h"
  by (simp add: put_def)

lemma cells_clean_column: "cells (clean_column s) = map clean_cell (cells s)"
proof (cases s)
  case (Numeric n)
  have "\<And>x. FloatCell (if x = NaN then Finite 0 else x) = clean_cell (FloatCell x)"
    by (case_tac x) simp_all
  then show ?thesis using Numeric
    by (cases n) (simp_all add: clean_column_def)
next
  case (Object xs)
  then show ?thesis by (simp add: clean_column_Object)
qed

lemma is_numeric_clean_column: "is_numeric_dtype (clean_column s) = is_numeric_dtype s"
  by (cases s) (simp_all add: clean_column_def is_numeric_dtype_def)

lemma cleaned_nth:
  "j < length d \<Longrightarrow> cleaned d ! j = (normalize_name (fst (d ! j)), clean_column (snd (d ! j)))"
  by (simp add: cleaned_def case_prod_beta)

lemma length_cleaned: "length (cleaned d) = length d"
  by (simp add: cleaned_def)

lemma clean_cell_numeric:
  "is_numeric_dtype s \<Longrightarrow> c \<in> set (cells s) \<Longrightarrow>
   \<not> isna (clean_cell c) \<and> (isna c \<longrightarrow> clean_cell c = FloatCell (Finite 0))
     \<and> (\<not> isna c \<longrightarrow> clean_cell c = c)"
proof (cases s)
  case (Numeric n)
  assume "c \<in> set (cells s)"
  with Numeric show ?thesis
  proof (cases n)
    case (Float64 xs)
    assume "c \<in> set (cells s)"
    with Numeric Float64 obtain x where "c = FloatCell x" by auto
    then show ?thesis by (cases x) simp_all
  qed auto
next
  case (Object xs)
  assume "is_numeric_dtype s"
  with Object show ?thesis by (simp add: is_numeric_dtype_def)
qed

section \<open>Properties of the three steps of \<open>main\<close>\<close>

lemma read_csv_Some:
  "files w p = Some (Parses t) \<Longrightarrow>
   read_csv w p = (w\<lparr>mem := (mem w)\<lparr>store := (store (mem w))(fresh (mem w) := t),
                                     fresh := Suc (fresh (mem w))\<rparr>\<rparr>, Inr (fresh (mem w)))"
  by (simp add: read_csv_def alloc_def)



lemma clean_copy_returns:
  "distinct (map normalize_name (columns (store (mem w) df))) \<Longrightarrow>
   clean_copy w df =
     (w\<lparr>mem := (mem w)\<lparr>store := (store (mem w))(fresh (mem w) := cleaned (store (mem w) df)),
                         fresh := Suc (fresh (mem w))\<rparr>\<rparr>, Inr (fresh (mem w)))"
  by (simp add: clean_copy_def copy_def alloc_def clean_data_returns put_def)

lemma front_ok:
  assumes "files w (crop_data_path cwd) = Some (Parses t1)"
    and "files w (normal_rainfall_path cwd) = Some (Parses t2)"
    and "files w (monthly_rainfall_path cwd) = Some (Parses t3)"
    and "distinct (map normalize_name (columns t1))"
    and "distinct (map normalize_name (columns t2))"
    and "distinct (map normalize_name (columns t3))"
  shows "\<exists>w1 dfs w2 a b c.
           extract_step cwd (print (print w MsgStart) MsgStep1) = (w1, Inr dfs)
         \<and> transform_step (print w1 MsgStep2) dfs = (w2, Inr (a, b, c))
         \<and> store (mem w2) a = cleaned t1 \<and> store (mem w2) b = cleaned t2
         \<and> store (mem w2) c = cleaned t3
         \<and> databases w2 = databases w \<and> conn w2 = conn w \<and> files w2 = files w
         \<and> out w2 = out w @ [MsgStart, MsgStep1, MsgLoaded, MsgStep2, MsgClean]"
  using assms
  by (simp add: extract_step_def transform_step_def read_csv_Some clean_copy_returns print_def)

lemma tables_Some: "databases w p = Some m \<Longrightarrow> tables w p = m"
  by (rule ext) (simp add: tables_def)

lemma load_all_ok:
  assumes "\<not> connect_fails fl"
    and "write_fault fl ''crop_production'' = NoFault"
    and "write_fault fl ''normal_rainfall'' = NoFault"
    and "write_fault fl ''monthly_rainfall'' = NoFault"
    and "load_step fl cwd v (a, b, c) = (v', res)"
  shows "res = Inr () \<and> out v' = out v @ [MsgDing] \<and> conn v' = Open (db_path cwd)
       \<and> files v' = files v
       \<and> tables v' (db_path cwd) = (tables v (db_path cwd))
            (''crop_production'' \<mapsto> store (mem v) a,
             ''normal_rainfall'' \<mapsto> store (mem v) b,
             ''monthly_rainfall'' \<mapsto> store (mem v) c)"
  using assms
  by (auto simp: load_step_def connect_def write_tables_def to_sql_def print_def
      connection_exit_def tables_Some)

lemma load_first_fails:
  assumes "\<not> connect_fails fl"
    and "write_fault fl ''crop_production'' \<noteq> NoFault"
    and "load_step fl cwd v (a, b, c) = (v', res)"
  shows "res = Inl DatabaseError \<and> out v' = out v \<and> conn v' = Open (db_path cwd)
       \<and> tables v' (db_path cwd) ''normal_rainfall'' = tables v (db_path cwd) ''normal_rainfall''
       \<and> tables v' (db_path cwd) ''monthly_rainfall'' = tables v (db_path cwd) ''monthly_rainfall''"
  using assms
  by (cases "write_fault fl ''crop_production''")
     (auto simp: load_step_def connect_def write_tables_def to_sql_def print_def
      connection_exit_def tables_Some)

lemma load_second_fails:
  assumes "\<not> connect_fails fl"
    and "write_fault fl ''crop_production'' = NoFault"
    and "write_fault fl ''normal_rainfall'' \<noteq> NoFault"
    and "load_step fl cwd v (a, b, c) = (v', res)"
  shows "res = Inl DatabaseError \<and> out v' = out v \<and> conn v' = Open (db_path cwd)
       \<and> tables v' (db_path cwd) ''crop_production'' = Some (store (mem v) a)
       \<and> tables v' (db_path cwd) ''monthly_rainfall'' = tables v (db_path cwd) ''monthly_rainfall''"
  using assms
  by (cases "write_fault fl ''normal_rainfall''")
     (auto simp: load_step_def connect_def write_tables_def to_sql_def print_def
      connection_exit_def tables_Some)

lemma load_third_fails:
  assumes "\<not> connect_fails fl"
    and "write_fault fl ''crop_production'' = NoFault"
    and "write_fault fl ''normal_rainfall'' = NoFault"
    and "write_fault fl ''monthly_rainfall'' \<noteq> NoFault"
    and "load_step fl cwd v (a, b, c) = (v', res)"
  shows "res = Inl DatabaseError \<and> out v' = out v \<and> conn v' = Open (db_path cwd)
       \<and> tables v' (db_path cwd) ''crop_production'' = Some (store (mem v) a)
       \<and> tables v' (db_path cwd) ''normal_rainfall'' = Some (store (mem v) b)"
  using assms
  by (cases "write_fault fl ''monthly_rainfall''")
     (auto simp: load_step_def connect_def write_tables_def to_sql_def print_def
      connection_exit_def tables_Some)

subsection \<open>\<open>main\<close> as a whole\<close>

lemma tables_cong: "databases v = databases w \<Longrightarrow> tables v p = tables w p"
  by (rule ext) (simp add: tables_def)

lemma main_after_transform:
  assumes "files w (crop_data_path cwd) = Some (Parses t1)"
    and "files w (normal_rainfall_path cwd) = Some (Parses t2)"
    and "files w (monthly_rainfall_path cwd) = Some (Parses t3)"
    and "distinct (map normalize_name (columns t1))"
    and "distinct (map normalize_name (columns t2))"
    and "distinct (map normalize_name (columns t3))"
  shows "\<exists>v a b c.
           out v = out w @ [MsgStart, MsgStep1, MsgLoaded, MsgStep2, MsgClean, MsgStep3]
         \<and> databases v = databases w \<and> conn v = conn w \<and> files v = files w
         \<and> store (mem v) a = cleaned t1 \<and> store (mem v) b = cleaned t2
         \<and> store (mem v) c = cleaned t3
         \<and> main fl cwd w =
             (case load_step fl cwd v (a, b, c) of
                (w3, Inl e) \<Rightarrow> (print w3 (MsgWhoops e), Inr ())
              | (w3, Inr _) \<Rightarrow> (print w3 MsgComplete, Inr ()))"
proof -
  from front_ok [OF assms] obtain w1 dfs w2 a b c where
    e: "extract_step cwd (print (print w MsgStart) MsgStep1) = (w1, Inr dfs)"
    and t: "transform_step (print w1 MsgStep2) dfs = (w2, Inr (a, b, c))"
    and s: "store (mem w2) a = cleaned t1" "store (mem w2) b = cleaned t2"
      "store (mem w2) c = cleaned t3"
    and k: "databases w2 = databases w" "conn w2 = conn w" "files w2 = files w"
    and o: "out w2 = out w @ [MsgStart, MsgStep1, MsgLoaded, MsgStep2, MsgClean]"
    by blast
  let ?v = "print w2 MsgStep3"
  have "main fl cwd w =
     (case load_step fl cwd ?v (a, b, c) of
        (w3, Inl e) \<Rightarrow> (print w3 (MsgWhoops e), Inr ())
      | (w3, Inr _) \<Rightarrow> (print w3 MsgComplete, Inr ()))"
    by (simp add: main_def e t)
  moreover have "out ?v = out w @ [MsgStart, MsgStep1, MsgLoaded, MsgStep2, MsgClean, MsgStep3]"
    by (simp add: print_def o)
  moreover have "databases ?v = databases w" "conn ?v = conn w" "files ?v = files w"
    "store (mem ?v) a = cleaned t1" "store (mem ?v) b = cleaned t2" "store (mem ?v) c = cleaned t3"
    by (simp_all add: print_def k s)
  ultimately show ?thesis by blast
qed

lemma main_completes:
  assumes "files w (crop_data_path cwd) = Some (Parses t1)"
    and "files w (normal_rainfall_path cwd) = Some (Parses t2)"
    and "files w (monthly_rainfall_path cwd) = Some (Parses t3)"
    and "distinct (map normalize_name (columns t1))"
    and "distinct (map normalize_name (columns t2))"
    and "distinct (map normalize_name (columns t3))"
    and "\<not> connect_fails fl"
    and "write_fault fl ''crop_production'' = NoFault"
    and "write_fault fl ''normal_rainfall'' = NoFault"
    and "write_fault fl ''monthly_rainfall'' = NoFault"
    and "main fl cwd w = (w', res)"
  shows "res = Inr ()
       \<and> out w' = out w @ [MsgStart, MsgStep1, MsgLoaded, MsgStep2, MsgClean, MsgStep3,
                            MsgDing, MsgComplete]
       \<and> files w' = files w
       \<and> conn w' = Open (db_path cwd)
       \<and> tables w' (db_path cwd) = (tables w (db_path cwd))
            (''crop_production'' \<mapsto> cleaned t1,
             ''normal_rainfall'' \<mapsto> cleaned t2,
             ''monthly_rainfall'' \<mapsto> cleaned t3)"
proof -
  from main_after_transform [OF assms(1-6), of fl] obtain v a b c where
    o: "out v = out w @ [MsgStart, MsgStep1, MsgLoaded, MsgStep2, MsgClean, MsgStep3]"
    and k: "databases v = databases w" "files v = files w"
    and s: "store (mem v) a = cleaned t1" "store (mem v) b = cleaned t2"
      "store (mem v) c = cleaned t3"
    and m: "main fl cwd w =
             (case load_step fl cwd v (a, b, c) of
                (w3, Inl e) \<Rightarrow> (print w3 (MsgWhoops e), Inr ())
              | (w3, Inr _) \<Rightarrow> (print w3 MsgComplete, Inr ()))"
    by blast
  obtain v' r where l: "load_step fl cwd v (a, b, c) = (v', r)" by (cases "load_step fl cwd v (a, b, c)")
  from load_all_ok [OF assms(7-10) l]
  have r: "r = Inr ()" and o': "out v' = out v @ [MsgDing]" and c': "conn v' = Open (db_path cwd)"
    and f': "files v' = files v"
    and t': "tables v' (db_path cwd) = (tables v (db_path cwd))
            (''crop_production'' \<mapsto> store (mem v) a,
             ''normal_rainfall'' \<mapsto> store (mem v) b,
             ''monthly_rainfall'' \<mapsto> store (mem v) c)"
    by simp_all
  from m l r assms(11) have w': "w' = print v' MsgComplete" and res: "res = Inr ()" by simp_all
  have "tables w' (db_path cwd) = tables v' (db_path cwd)"
    by (rule tables_cong) (simp add: w' print_def)
  with t' have "tables w' (db_path cwd) = (tables w (db_path cwd))
            (''crop_production'' \<mapsto> cleaned t1,
             ''normal_rainfall'' \<mapsto> cleaned t2,
             ''monthly_rainfall'' \<mapsto> cleaned t3)"
    by (simp add: s tables_cong [OF k(1)])
  moreover have "out w' = out w @ [MsgStart, MsgStep1, MsgLoaded, MsgStep2, MsgClean, MsgStep3,
                            MsgDing, MsgComplete]"
    by (simp add: w' print_def o' o)
  moreover have "files w' = files w" "conn w' = Open (db_path cwd)"
    by (simp_all add: w' print_def f' k c')
  ultimately show ?thesis using res by simp
qed

lemma main_write_fails:
  assumes "files w (crop_data_path cwd) = Some (Parses t1)"
    and "files w (normal_rainfall_path cwd) = Some (Parses t2)"
    and "files w (monthly_rainfall_path cwd) = Some (Parses t3)"
    and "distinct (map normalize_name (columns t1))"
    and "distinct (map normalize_name (columns t2))"
    and "distinct (map normalize_name (columns t3))"
    and "main fl cwd w = (w', res)"
  shows "\<exists>v a b c v' r.
           load_step fl cwd v (a, b, c) = (v', r)
         \<and> tables v (db_path cwd) = tables w (db_path cwd)
         \<and> out v = out w @ [MsgStart, MsgStep1, MsgLoaded, MsgStep2, MsgClean, MsgStep3]
         \<and> store (mem v) a = cleaned t1 \<and> store (mem v) b = cleaned t2
         \<and> store (mem v) c = cleaned t3
         \<and> (r = Inl DatabaseError \<longrightarrow>
               res = Inr () \<and> out w' = out v' @ [MsgWhoops DatabaseError]
             \<and> tables w' (db_path cwd) = tables v' (db_path cwd) \<and> conn w' = conn v')"
proof -
  from main_after_transform [OF assms(1-6), of fl] obtain v a b c where
    o: "out v = out w @ [MsgStart, MsgStep1, MsgLoaded, MsgStep2, MsgClean, MsgStep3]"
    and k: "databases v = databases w"
    and s: "store (mem v) a = cleaned t1" "store (mem v) b = cleaned t2"
      "store (mem v) c = cleaned t3"
    and m: "main fl cwd w =
             (case load_step fl cwd v (a, b, c) of
                (w3, Inl e) \<Rightarrow> (print w3 (MsgWhoops e), Inr ())
              | (w3, Inr _) \<Rightarrow> (print w3 MsgComplete, Inr ()))"
    by blast
  obtain v' r where l: "load_step fl cwd v (a, b, c) = (v', r)" by (cases "load_step fl cwd v (a, b, c)")
  have "r = Inl DatabaseError \<longrightarrow>
               res = Inr () \<and> out w' = out v' @ [MsgWhoops DatabaseError]
             \<and> tables w' (db_path cwd) = tables v' (db_path cwd) \<and> conn w' = conn v'"
  proof
    assume "r = Inl DatabaseError"
    with m l assms(7) have w': "w' = print v' (MsgWhoops DatabaseError)" and r': "res = Inr ()"
      by simp_all
    have "tables w' (db_path cwd) = tables v' (db_path cwd)"
      by (rule tables_cong) (simp add: w' print_def)
    with w' r' show "res = Inr () \<and> out w' = out v' @ [MsgWhoops DatabaseError]
             \<and> tables w' (db_path cwd) = tables v' (db_path cwd) \<and> conn w' = conn v'"
      by (simp add: print_def)
  qed
  with l o s tables_cong [OF k] show ?thesis by blast
qed

lemma example_inputs:
  "files example_world (crop_data_path [''home'']) = Some (Parses example_frame)"
  "files example_world (normal_rainfall_path [''home''])
     = Some (Parses [(''Rain'', Numeric (Float64 [NaN]))])"
  "files example_world (monthly_rainfall_path [''home''])
     = Some (Parses [(''Jan'', Numeric (Int64 [3]))])"
  "distinct (map normalize_name (columns example_frame))"
  "distinct (map normalize_name (columns [(''Rain'', Numeric (Float64 [NaN]))]))"
  "distinct (map normalize_name (columns [(''Jan'', Numeric (Int64 [3]))]))"
  by code_simp+

lemma text_entries_are_stripped:
  assumes "clean_data h df = (h', Inr r)"
    and "j < length (store h df)"
    and "\<not> is_numeric_dtype (snd (store h df ! j))"
    and "i < length (cells (snd (store h df ! j)))"
  shows "\<exists>s. cells (snd (store h' r ! j)) ! i = ObjCell (Str s) \<and> stripped s"
proof -
  let ?s = "snd (store h df ! j)"
  from assms(3) obtain xs where xs: "?s = Object xs"
    by (cases ?s) (simp_all add: is_numeric_dtype_def)
  from clean_data_Inr_eq [OF assms(1)] have "store h' r = cleaned (store h df)" by simp
  with assms(2) have "snd (store h' r ! j) = clean_column ?s" by (simp add: cleaned_nth)
  with xs assms(4) have "cells (snd (store h' r ! j)) ! i = ObjCell (Str (str_strip (py_str (xs ! i))))"
    by (simp add: clean_column_Object)
  then show ?thesis using stripped_str_strip by blast
qed

section \<open>The claims about \<open>clean_data\<close>\<close>

text \<open>
  Claim C1. After \<open>clean_data\<close>, in every column that is not numeric each missing entry is
  the string \<open>Unknown\<close>, and no entry has whitespace at either end.

  The code does not do the first half. Line 24 runs \<open>astype(str)\<close> before line 25 runs
  \<open>fillna('Unknown')\<close>: the missing entry is the string \<open>nan\<close> by then and \<open>fillna\<close> finds
  nothing to fill. The theorem runs \<open>clean_data\<close> on \<open>example_frame\<close>, whose text column
  \<open>District Name\<close> has a missing entry in row 1.
\<close>

theorem missing_text_becomes_nan:
  "snd (clean_data example_heap 0) = Inr 0
   \<and> \<not> is_numeric_dtype (snd (store example_heap 0 ! 0))
   \<and> isna (cells (snd (store example_heap 0 ! 0)) ! 1)
   \<and> cells (snd (store (fst (clean_data example_heap 0)) 0 ! 0)) ! 1 = ObjCell (Str ''nan'')"
  by code_simp

text \<open>
  Claim C2. \<open>clean_data\<close> has no side effects: the table object the caller passes is
  unchanged after the call.

  As stated this fails: \<open>clean_data\<close> assigns to \<open>df.columns\<close> and to \<open>df[col]\<close> of the object
  it is given. The theorem below is the counterexample, on \<open>example_heap\<close>.
\<close>

theorem clean_data_changes_its_argument:
  "store (fst (clean_data example_heap 0)) 0 \<noteq> store example_heap 0"
  by code_simp

text \<open>
  Claim C2, amended. \<open>clean_data\<close> changes the object it is given in place, returns that
  same object and changes no other object. \<open>main\<close> calls it on \<open>df.copy()\<close>, so the table
  that was copied is unchanged.
\<close>

theorem clean_data_in_place:
  assumes "r < fresh h"
    and "copy h r = (h1, c)"
    and "clean_data h1 c = (h2, res)"
  shows "(res = Inr c \<or> res = Inl AttributeError)
       \<and> c \<noteq> r
       \<and> store h2 r = store h r
       \<and> (\<forall>a. a \<noteq> c \<longrightarrow> store h2 a = store h1 a)
       \<and> (res = Inr c \<longrightarrow> store h2 c = cleaned (store h r))"
proof -
  from assms(2) have c: "c = fresh h" and h1: "h1 = h\<lparr>store := (store h)(fresh h := store h r), fresh := Suc (fresh h)\<rparr>"
    by (auto simp: copy_def alloc_def)
  from c assms(1) have ne: "c \<noteq> r" by simp
  have s1: "store h1 r = store h r" "store h1 c = store h r" using ne c by (simp_all add: h1)
  from clean_data_frame [OF assms(3)] have fr: "\<forall>a. a \<noteq> c \<longrightarrow> store h2 a = store h1 a" by simp
  have res: "res = Inr c \<or> res = Inl AttributeError"
  proof (cases res)
    case (Inl e)
    with assms(3) clean_data_Inl show ?thesis by blast
  next
    case (Inr x)
    with assms(3) clean_data_Inr_eq show ?thesis by blast
  qed
  have "res = Inr c \<longrightarrow> store h2 c = cleaned (store h r)"
    using assms(3) clean_data_Inr_eq [of h1 c h2 c] s1 by auto
  with res ne fr s1 show ?thesis by simp
qed

theorem clean_data_in_place_witness:
  "(0::nat) < fresh example_heap
   \<and> copy example_heap 0 = (fst (copy example_heap 0), 1)
   \<and> snd (clean_data (fst (copy example_heap 0)) 1) = Inr 1
   \<and> store (fst (clean_data (fst (copy example_heap 0)) 1)) 0 = store example_heap 0"
proof -
  have a: "(0::nat) < fresh example_heap" by code_simp
  have "snd (copy example_heap 0) = 1" by code_simp
  then have b: "copy example_heap 0 = (fst (copy example_heap 0), 1)" by (simp add: prod_eq_iff)
  have c: "clean_data (fst (copy example_heap 0)) 1
      = (fst (clean_data (fst (copy example_heap 0)) 1), snd (clean_data (fst (copy example_heap 0)) 1))"
    by simp
  have d: "snd (clean_data (fst (copy example_heap 0)) 1) = Inr 1" by code_simp
  from clean_data_in_place [OF a b c] a b d show ?thesis by simp
qed

text \<open>
  Claim C3. After \<open>clean_data\<close>, in every numeric column each missing entry is 0 and no
  entry is missing any more. Row \<open>i\<close> of column \<open>j\<close> is compared before and after the call.
\<close>

theorem numeric_missing_entries_become_zero:
  assumes "clean_data h df = (h', Inr r)"
    and "j < length (store h df)"
    and "is_numeric_dtype (snd (store h df ! j))"
    and "i < length (cells (snd (store h df ! j)))"
  shows "is_numeric_dtype (snd (store h' r ! j))
       \<and> length (cells (snd (store h' r ! j))) = length (cells (snd (store h df ! j)))
       \<and> \<not> isna (cells (snd (store h' r ! j)) ! i)
       \<and> (isna (cells (snd (store h df ! j)) ! i)
            \<longrightarrow> cells (snd (store h' r ! j)) ! i = FloatCell (Finite 0))
       \<and> (\<not> isna (cells (snd (store h df ! j)) ! i)
            \<longrightarrow> cells (snd (store h' r ! j)) ! i = cells (snd (store h df ! j)) ! i)"
proof -
  let ?s = "snd (store h df ! j)"
  from clean_data_Inr_eq [OF assms(1)] have "store h' r = cleaned (store h df)" by simp
  with assms(2) have out: "snd (store h' r ! j) = clean_column ?s" by (simp add: cleaned_nth)
  have c: "cells ?s ! i \<in> set (cells ?s)" using assms(4) by simp
  have n: "cells (clean_column ?s) ! i = clean_cell (cells ?s ! i)"
    using assms(4) by (simp add: cells_clean_column)
  show ?thesis
    unfolding out n using clean_cell_numeric [OF assms(3) c] assms(3)
    by (simp add: is_numeric_clean_column cells_clean_column)
qed

theorem numeric_missing_entries_become_zero_witness:
  "clean_data example_heap 0 = (fst (clean_data example_heap 0), Inr 0)
   \<and> (1::nat) < length (store example_heap 0)
   \<and> is_numeric_dtype (snd (store example_heap 0 ! 1))
   \<and> (1::nat) < length (cells (snd (store example_heap 0 ! 1)))
   \<and> isna (cells (snd (store example_heap 0 ! 1)) ! 1)
   \<and> cells (snd (store (fst (clean_data example_heap 0)) 0 ! 1)) ! 1 = FloatCell (Finite 0)"
proof -
  have "snd (clean_data example_heap 0) = Inr 0" by code_simp
  then have a: "clean_data example_heap 0 = (fst (clean_data example_heap 0), Inr 0)"
    by (simp add: prod_eq_iff)
  have b: "(1::nat) < length (store example_heap 0)" by code_simp
  have c: "is_numeric_dtype (snd (store example_heap 0 ! 1))" by code_simp
  have d: "(1::nat) < length (cells (snd (store example_heap 0 ! 1)))" by code_simp
  have e: "isna (cells (snd (store example_heap 0 ! 1)) ! 1)" by code_simp
  from numeric_missing_entries_become_zero [OF a b c d] a b c d e show ?thesis by blast
qed

text \<open>
  Claim C4. After \<open>clean_data\<close> every column name is the original name lower-cased, with
  every space replaced by an underscore. This holds whether \<open>clean_data\<close> returns or
  raises. In the witness \<open>District Name\<close> becomes \<open>district_name\<close>.
\<close>

theorem column_names_lowercased_underscored:
  assumes "clean_data h df = (h', res)"
  shows "columns (store h' df)
       = map (\<lambda>name. str_replace (CHR '' '') (CHR ''_'') (str_lower name)) (columns (store h df))"
  using clean_data_columns [OF assms] by (simp add: normalize_name_def [abs_def])

theorem column_names_lowercased_underscored_witness:
  "clean_data example_heap 0 = (fst (clean_data example_heap 0), Inr 0)
   \<and> columns (store example_heap 0) = [''District Name'', ''Area'']
   \<and> columns (store (fst (clean_data example_heap 0)) 0) = [''district_name'', ''area'']"
proof -
  have "snd (clean_data example_heap 0) = Inr 0" by code_simp
  then have a: "clean_data example_heap 0 = (fst (clean_data example_heap 0), Inr 0)"
    by (simp add: prod_eq_iff)
  have b: "columns (store example_heap 0) = [''District Name'', ''Area'']" by code_simp
  have c: "map (\<lambda>name. str_replace (CHR '' '') (CHR ''_'') (str_lower name)) [''District Name'', ''Area'']
       = [''district_name'', ''area'']" by code_simp
  from column_names_lowercased_underscored [OF a] a b c show ?thesis by simp
qed

text \<open>
  Claim C5. \<open>clean_data\<close> is idempotent: called on a table that a call of \<open>clean_data\<close>
  returned, it leaves the table, and the whole store, as they are.
\<close>

theorem clean_data_idempotent:
  assumes "clean_data h df = (h1, Inr r)"
  shows "clean_data h1 r = (h1, Inr r)"
proof -
  from clean_data_Inr_eq [OF assms]
  have r: "r = df" and h1: "h1 = put h df (cleaned (store h df))" by simp_all
  have d: "distinct (map normalize_name (columns (store h df)))"
    using assms by (rule clean_data_Inr)
  have "store h1 df = cleaned (store h df)" by (simp add: h1)
  then have "distinct (map normalize_name (columns (store h1 df)))"
    using d by (simp add: columns_cleaned normalize_name_idem comp_def)
  from clean_data_returns [OF this]
  have "clean_data h1 df = (put h1 df (cleaned (store h1 df)), Inr df)" .
  also have "put h1 df (cleaned (store h1 df)) = h1"
    by (simp add: h1 cleaned_idem)
  finally show ?thesis by (simp add: r)
qed

theorem clean_data_idempotent_witness:
  "clean_data example_heap 0 = (fst (clean_data example_heap 0), Inr 0)
   \<and> clean_data (fst (clean_data example_heap 0)) 0 = (fst (clean_data example_heap 0), Inr 0)"
proof -
  have "snd (clean_data example_heap 0) = Inr 0" by code_simp
  then have a: "clean_data example_heap 0 = (fst (clean_data example_heap 0), Inr 0)"
    by (simp add: prod_eq_iff)
  from clean_data_idempotent [OF a] a show ?thesis by simp
qed

text \<open>
  Claim C10. \<open>clean_data\<close> keeps the shape of the table: the number of columns, the
  number of rows, and the order of both. Column \<open>j\<close> of the result is column \<open>j\<close> of the
  input under its new name, and its cell in each row is \<open>clean_cell\<close> of the cell that the
  input has in that row.
\<close>

theorem clean_data_preserves_shape:
  assumes "clean_data h df = (h', Inr r)"
    and "j < length (store h df)"
  shows "length (store h' r) = length (store h df)
       \<and> fst (store h' r ! j) = normalize_name (fst (store h df ! j))
       \<and> length (cells (snd (store h' r ! j))) = length (cells (snd (store h df ! j)))
       \<and> cells (snd (store h' r ! j)) = map clean_cell (cells (snd (store h df ! j)))"
proof -
  from clean_data_Inr_eq [OF assms(1)] have "store h' r = cleaned (store h df)" by simp
  with assms(2) show ?thesis
    by (simp add: cleaned_nth length_cleaned cells_clean_column)
qed

theorem clean_data_preserves_shape_witness:
  "clean_data example_heap 0 = (fst (clean_data example_heap 0), Inr 0)
   \<and> (0::nat) < length (store example_heap 0)
   \<and> length (store (fst (clean_data example_heap 0)) 0) = 2
   \<and> cells (snd (store (fst (clean_data example_heap 0)) 0 ! 0))
       = [ObjCell (Str ''Wheat''), ObjCell (Str ''nan'')]"
proof -
  have "snd (clean_data example_heap 0) = Inr 0" by code_simp
  then have a: "clean_data example_heap 0 = (fst (clean_data example_heap 0), Inr 0)"
    by (simp add: prod_eq_iff)
  have b: "(0::nat) < length (store example_heap 0)" by code_simp
  have c: "length (store example_heap 0) = 2" by code_simp
  have d: "map clean_cell (cells (snd (store example_heap 0 ! 0)))
       = [ObjCell (Str ''Wheat''), ObjCell (Str ''nan'')]" by code_simp
  from clean_data_preserves_shape [OF a b] a b c d show ?thesis by simp
qed

section \<open>The claims about \<open>main\<close>\<close>




text \<open>
  Claim C7. If a table write fails, the writes after it are not made and the diagnostic
  is printed; the writes made before it stay. So when the second write fails the first
  table holds the new data and the third is as it was. The three implications are the
  three writes that can fail first; the inputs are readable and the connection opens.
\<close>

theorem write_failure_aborts_without_rollback:
  assumes "files w (crop_data_path cwd) = Some (Parses t1)"
    and "files w (normal_rainfall_path cwd) = Some (Parses t2)"
    and "files w (monthly_rainfall_path cwd) = Some (Parses t3)"
    and "distinct (map normalize_name (columns t1))"
    and "distinct (map normalize_name (columns t2))"
    and "distinct (map normalize_name (columns t3))"
    and "\<not> connect_fails fl"
    and "main fl cwd w = (w', res)"
  shows "(write_fault fl ''crop_production'' \<noteq> NoFault \<longrightarrow>
            res = Inr ()
          \<and> out w' = out w @ [MsgStart, MsgStep1, MsgLoaded, MsgStep2, MsgClean, MsgStep3,
                               MsgWhoops DatabaseError]
          \<and> tables w' (db_path cwd) ''normal_rainfall'' = tables w (db_path cwd) ''normal_rainfall''
          \<and> tables w' (db_path cwd) ''monthly_rainfall'' = tables w (db_path cwd) ''monthly_rainfall'')
       \<and> (write_fault fl ''crop_production'' = NoFault
          \<and> write_fault fl ''normal_rainfall'' \<noteq> NoFault \<longrightarrow>
            res = Inr ()
          \<and> out w' = out w @ [MsgStart, MsgStep1, MsgLoaded, MsgStep2, MsgClean, MsgStep3,
                               MsgWhoops DatabaseError]
          \<and> tables w' (db_path cwd) ''crop_production'' = Some (cleaned t1)
          \<and> tables w' (db_path cwd) ''monthly_rainfall'' = tables w (db_path cwd) ''monthly_rainfall'')
       \<and> (write_fault fl ''crop_production'' = NoFault
          \<and> write_fault fl ''normal_rainfall'' = NoFault
          \<and> write_fault fl ''monthly_rainfall'' \<noteq> NoFault \<longrightarrow>
            res = Inr ()
          \<and> out w' = out w @ [MsgStart, MsgStep1, MsgLoaded, MsgStep2, MsgClean, MsgStep3,
                               MsgWhoops DatabaseError]
          \<and> tables w' (db_path cwd) ''crop_production'' = Some (cleaned t1)
          \<and> tables w' (db_path cwd) ''normal_rainfall'' = Some (cleaned t2))"
proof -
  from main_write_fails [OF assms(1-6) assms(8)] obtain v a b c v' r where
    l: "load_step fl cwd v (a, b, c) = (v', r)"
    and t: "tables v (db_path cwd) = tables w (db_path cwd)"
    and o: "out v = out w @ [MsgStart, MsgStep1, MsgLoaded, MsgStep2, MsgClean, MsgStep3]"
    and s: "store (mem v) a = cleaned t1" "store (mem v) b = cleaned t2"
    and f: "r = Inl DatabaseError \<longrightarrow>
               res = Inr () \<and> out w' = out v' @ [MsgWhoops DatabaseError]
             \<and> tables w' (db_path cwd) = tables v' (db_path cwd) \<and> conn w' = conn v'"
    by blast
  have first: ?thesis if "write_fault fl ''crop_production'' \<noteq> NoFault"
    using load_first_fails [OF assms(7) that l] f that by (simp add: o t)
  have second: ?thesis
    if "write_fault fl ''crop_production'' = NoFault" "write_fault fl ''normal_rainfall'' \<noteq> NoFault"
    using load_second_fails [OF assms(7) that l] f that by (simp add: o t s)
  have third: ?thesis
    if "write_fault fl ''crop_production'' = NoFault" "write_fault fl ''normal_rainfall'' = NoFault"
      "write_fault fl ''monthly_rainfall'' \<noteq> NoFault"
    using load_third_fails [OF assms(7) that l] f that by (simp add: o t s)
  from first second third show ?thesis by blast
qed

theorem write_failure_aborts_without_rollback_witness:
  "\<not> connect_fails second_write_fails
   \<and> write_fault second_write_fails ''crop_production'' = NoFault
   \<and> write_fault second_write_fails ''normal_rainfall'' \<noteq> NoFault
   \<and> snd (main second_write_fails [''home''] example_world) = Inr ()
   \<and> tables (fst (main second_write_fails [''home''] example_world)) (db_path [''home''])
        ''crop_production'' = Some (cleaned example_frame)
   \<and> tables (fst (main second_write_fails [''home''] example_world)) (db_path [''home''])
        ''monthly_rainfall'' = None"
proof -
  have a: "\<not> connect_fails second_write_fails" by code_simp
  have b: "write_fault second_write_fails ''crop_production'' = NoFault" by code_simp
  have c: "write_fault second_write_fails ''normal_rainfall'' \<noteq> NoFault" by code_simp
  have d: "tables example_world (db_path [''home'']) ''monthly_rainfall'' = None" by code_simp
  have m: "main second_write_fails [''home''] example_world
      = (fst (main second_write_fails [''home''] example_world),
         snd (main second_write_fails [''home''] example_world))" by simp
  from write_failure_aborts_without_rollback [OF example_inputs a m] a b c d
  show ?thesis by simp
qed

text \<open>
  Claim C8. Two runs of the job in succession, on unchanged inputs and both with no
  failure, leave the same tables: after each run the three tables hold the cleaned
  inputs whatever was there before, and every other table is untouched.
\<close>

theorem two_runs_leave_identical_tables:
  assumes "files w (crop_data_path cwd) = Some (Parses t1)"
    and "files w (normal_rainfall_path cwd) = Some (Parses t2)"
    and "files w (monthly_rainfall_path cwd) = Some (Parses t3)"
    and "distinct (map normalize_name (columns t1))"
    and "distinct (map normalize_name (columns t2))"
    and "distinct (map normalize_name (columns t3))"
    and "\<not> connect_fails fl"
    and "write_fault fl ''crop_production'' = NoFault"
    and "write_fault fl ''normal_rainfall'' = NoFault"
    and "write_fault fl ''monthly_rainfall'' = NoFault"
    and "main fl cwd w = (w1, res1)"
    and "main fl cwd w1 = (w2, res2)"
  shows "res1 = Inr () \<and> res2 = Inr ()
       \<and> last (out w1) = MsgComplete \<and> last (out w2) = MsgComplete
       \<and> tables w1 (db_path cwd) ''crop_production'' = Some (cleaned t1)
       \<and> tables w1 (db_path cwd) ''normal_rainfall'' = Some (cleaned t2)
       \<and> tables w1 (db_path cwd) ''monthly_rainfall'' = Some (cleaned t3)
       \<and> tables w2 (db_path cwd) = tables w1 (db_path cwd)"
proof -
  note r1 = main_completes [OF assms(1-10) assms(11)]
  then have f: "files w1 = files w" by simp
  note r2 = main_completes [OF assms(1-3) [folded f] assms(4-10) assms(12)]
  from r1 have t1: "tables w1 (db_path cwd) = (tables w (db_path cwd))
            (''crop_production'' \<mapsto> cleaned t1,
             ''normal_rainfall'' \<mapsto> cleaned t2,
             ''monthly_rainfall'' \<mapsto> cleaned t3)" by simp
  from r2 have t2: "tables w2 (db_path cwd) = (tables w1 (db_path cwd))
            (''crop_production'' \<mapsto> cleaned t1,
             ''normal_rainfall'' \<mapsto> cleaned t2,
             ''monthly_rainfall'' \<mapsto> cleaned t3)" by simp
  have same: "tables w2 (db_path cwd) = tables w1 (db_path cwd)"
    unfolding t2 unfolding t1 by (rule ext) simp
  have "tables w1 (db_path cwd) ''crop_production'' = Some (cleaned t1)"
    "tables w1 (db_path cwd) ''normal_rainfall'' = Some (cleaned t2)"
    "tables w1 (db_path cwd) ''monthly_rainfall'' = Some (cleaned t3)"
    by (simp_all add: t1)
  moreover from r1 r2 have "res1 = Inr ()" "res2 = Inr ()"
    "last (out w1) = MsgComplete" "last (out w2) = MsgComplete" by simp_all
  ultimately show ?thesis using same by simp
qed

theorem two_runs_leave_identical_tables_witness:
  "snd (main no_faults [''home''] example_world) = Inr ()
   \<and> tables (fst (main no_faults [''home''] example_world)) (db_path [''home''])
        ''crop_production'' = Some (cleaned example_frame)
   \<and> tables (fst (main no_faults [''home''] (fst (main no_faults [''home''] example_world))))
        (db_path [''home''])
     = tables (fst (main no_faults [''home''] example_world)) (db_path [''home''])"
proof -
  have a: "\<not> connect_fails no_faults" by code_simp
  have b: "write_fault no_faults ''crop_production'' = NoFault"
    "write_fault no_faults ''normal_rainfall'' = NoFault"
    "write_fault no_faults ''monthly_rainfall'' = NoFault" by code_simp+
  have m1: "main no_faults [''home''] example_world
      = (fst (main no_faults [''home''] example_world),
         snd (main no_faults [''home''] example_world))" by simp
  have m2: "main no_faults [''home''] (fst (main no_faults [''home''] example_world))
      = (fst (main no_faults [''home''] (fst (main no_faults [''home''] example_world))),
         snd (main no_faults [''home''] (fst (main no_faults [''home''] example_world))))" by simp
  from two_runs_leave_identical_tables [OF example_inputs a b m1 m2]
  show ?thesis by simp
qed

text \<open>
  Claim C9. The connection is opened just before the three writes and is closed on every
  way out of the load step.

  The code opens it there, but nothing closes it. The \<open>with\<close> statement of line 54 calls
  \<open>Connection.__exit__\<close>, which commits or rolls back and leaves the connection open
  (the sqlite3 documentation says so and points to \<open>contextlib.closing\<close>); the script
  never calls \<open>close\<close>. The theorem runs \<open>main\<close> twice on \<open>example_world\<close>, once with no
  failure and once with a failing second write: the connection is open at the end of
  both.
\<close>

theorem connection_left_open:
  "conn example_world = NoConn
   \<and> last (out (fst (main no_faults [''home''] example_world))) = MsgComplete
   \<and> conn (fst (main no_faults [''home''] example_world)) = Open (db_path [''home''])
   \<and> last (out (fst (main second_write_fails [''home''] example_world))) = MsgWhoops DatabaseError
   \<and> conn (fst (main second_write_fails [''home''] example_world)) = Open (db_path [''home''])"
  by code_simp

end
